theory Spec2Isabelle
  imports Main
begin

section \<open>The Batch pipeline of seabird-processing (batch.py)\<close>

text \<open>
  The module has one class, \<^verbatim>\<open>Batch\<close>, with three methods: the constructor, which stores
  the iterable of stages it is given, \<^verbatim>\<open>get_batch_config_str\<close>, which renders the
  stages into the text of a batch file, and \<^verbatim>\<open>__call__\<close>, which writes that text to a
  named temporary file and runs the external program \<^verbatim>\<open>sbebatch\<close> on it.
\<close>

subsection \<open>Exceptions\<close>

text \<open>
  Python has one space of exceptions, so the model has one type for them. The constructors
  are the exceptions the module's own calls raise (\<^verbatim>\<open>OSError\<close> from the temporary file
  and from starting the process, \<^verbatim>\<open>FileNotFoundError\<close> with the name of the file from
  deleting a file that is not there, \<^verbatim>\<open>CalledProcessError(returncode, cmd)\<close> from
  \<^verbatim>\<open>subprocess.run(..., check=True)\<close>) and one for anything else a stage may raise.
\<close>

datatype exn =
    OSError string
  | FileNotFoundError string
  | CalledProcessError int "string list"
  | Exception string

subsection \<open>Stages\<close>

text \<open>
  A stage is an object of the class \<^verbatim>\<open>_SBEConfig\<close>, of which the pipeline uses two
  methods only. The class is not part of batch.py, so a stage is the pair of these two
  methods, each either returning a text or raising. Here the methods are functions of
  their arguments; stages whose methods read and change the world come further down, for
  what the rendering does to the world.
\<close>

record stage =
  get_exec_str :: "string \<Rightarrow> bool \<Rightarrow> exn + string"
  output_file_path :: "string \<Rightarrow> exn + string"

text \<open>
  The constructor takes an \<^verbatim>\<open>Iterable[_SBEConfig]\<close> and stores it as it is. What a
  \<^verbatim>\<open>for\<close> loop does to an iterable depends on its kind: a list or a tuple is read from
  its first element every time and is left as it was; an iterator (a generator, the
  result of \<^verbatim>\<open>iter\<close> or \<^verbatim>\<open>map\<close>) hands out each element once and keeps only the elements
  not yet handed out. Both kinds are finite here.
\<close>

datatype 'a iterable =
    Sequence "'a list"
  | Iterator "'a list"

fun items :: "'a iterable \<Rightarrow> 'a list" where
  "items (Sequence xs) = xs"
| "items (Iterator xs) = xs"

text \<open>The state of the iterable after a loop that left \<open>rest\<close> unread.\<close>

fun consumed :: "'a iterable \<Rightarrow> 'a list \<Rightarrow> 'a iterable" where
  "consumed (Sequence xs) rest = Sequence xs"
| "consumed (Iterator xs) rest = Iterator rest"

record 'a batch =
  stages :: "'a iterable"

definition init :: "'a iterable \<Rightarrow> 'a batch" where
  "init stgs = \<lparr>stages = stgs\<rparr>"

definition config_header_comment :: string where
  "config_header_comment = ''@ Generated by the seabird-processing Python package''"

subsection \<open>Strings and paths\<close>

definition newline :: string where
  "newline = [CHR 0x0A]"

text \<open>\<^verbatim>\<open>sep.join(xs)\<close>.\<close>

fun str_join :: "string \<Rightarrow> string list \<Rightarrow> string" where
  "str_join sep [] = []"
| "str_join sep [x] = x"
| "str_join sep (x # y # ys) = x @ sep @ str_join sep (y # ys)"

text \<open>\<^verbatim>\<open>s.split(c)\<close> for a separator of one character: never the empty list.\<close>

fun str_split :: "char \<Rightarrow> string \<Rightarrow> string list" where
  "str_split c [] = [[]]"
| "str_split c (x # xs) =
     (if x = c then [] # str_split c xs
      else (case str_split c xs of
              [] \<Rightarrow> [[x]]
            | y # ys \<Rightarrow> (x # y) # ys))"

text \<open>
  \<^verbatim>\<open>Path(p).name\<close> for a POSIX path: the path is cut at every \<^verbatim>\<open>/\<close>, the empty parts
  and the parts \<^verbatim>\<open>.\<close> are dropped, and the name is the last part left, or the empty
  text when none is left (\<^verbatim>\<open>Path("dir/").name\<close> is \<^verbatim>\<open>dir\<close>, \<^verbatim>\<open>Path("/").name\<close> is empty).
\<close>

definition path_parts :: "string \<Rightarrow> string list" where
  "path_parts p = filter (\<lambda>x. x \<noteq> [] \<and> x \<noteq> ''.'') (str_split (CHR ''/'') p)"

definition path_name :: "string \<Rightarrow> string" where
  "path_name p = (case path_parts p of [] \<Rightarrow> [] | x # xs \<Rightarrow> last (x # xs))"

subsection \<open>Rendering: \<^verbatim>\<open>get_batch_config_str\<close>\<close>

text \<open>
  The calls the loop makes on the stages are what a stage can observe of a rendering, so
  the model returns them in the order they are made, each with the position of its stage
  in the loop and the arguments it is given.
\<close>

datatype stage_call =
    Exec_call nat string bool
  | Output_call nat string

fun stage_of :: "stage_call \<Rightarrow> nat" where
  "stage_of (Exec_call i x b) = i"
| "stage_of (Output_call i x) = i"

fun input_of :: "stage_call \<Rightarrow> string" where
  "input_of (Exec_call i x b) = x"
| "input_of (Output_call i x) = x"

text \<open>What a stage answers to a call: the text it returns or the exception it raises.\<close>

fun answer :: "stage \<Rightarrow> stage_call \<Rightarrow> exn + string" where
  "answer config (Exec_call i x b) = get_exec_str config x b"
| "answer config (Output_call i x) = output_file_path config x"

text \<open>
  The loop of \<^verbatim>\<open>get_batch_config_str\<close> over the stages still to be read, with the number
  \<open>i\<close> of stages already read, the local \<^verbatim>\<open>next_input_file\<close> and the list
  \<^verbatim>\<open>batch_config_str\<close> built so far. It returns the stages left unread, the calls made and
  either the exception that ended the loop or the finished list.
\<close>

fun render_loop ::
  "stage list \<Rightarrow> nat \<Rightarrow> string \<Rightarrow> string list \<Rightarrow> stage list \<times> stage_call list \<times> (exn + string list)"
where
  "render_loop [] i next_input_file batch_config_str = ([], [], Inr batch_config_str)"
| "render_loop (config # rest) i next_input_file batch_config_str =
     (case get_exec_str config next_input_file True of
        Inl e \<Rightarrow> (rest, [Exec_call i next_input_file True], Inl e)
      | Inr s \<Rightarrow>
          (case output_file_path config next_input_file of
             Inl e \<Rightarrow>
               (rest, [Exec_call i next_input_file True, Output_call i next_input_file], Inl e)
           | Inr p \<Rightarrow>
               (case render_loop rest (Suc i) (path_name p) (batch_config_str @ [s]) of
                  (rest', calls, r) \<Rightarrow>
                    (rest',
                     Exec_call i next_input_file True # Output_call i next_input_file # calls,
                     r))))"

text \<open>
  The method: the pipeline after the call (an iterator has been read), the calls made on
  the stages, and the exception or the text.
\<close>

definition get_batch_config_str ::
  "stage batch \<Rightarrow> string \<Rightarrow> stage batch \<times> stage_call list \<times> (exn + string)"
where
  "get_batch_config_str self input_file_pattern =
     (case render_loop (items (stages self)) 0 input_file_pattern [config_header_comment] of
        (rest, calls, r) \<Rightarrow>
          (self\<lparr>stages := consumed (stages self) rest\<rparr>,
           calls,
           (case r of Inl e \<Rightarrow> Inl e | Inr batch_config_str \<Rightarrow> Inr (str_join newline batch_config_str))))"

subsection \<open>Running: \<^verbatim>\<open>__call__\<close>\<close>

text \<open>
  The method works on the file system and starts a process. The world it changes is the
  file system (the text of each file that exists) and the record of the calls of
  \<^verbatim>\<open>subprocess.run\<close>: the command of each call and the file system the call found.
\<close>

type_synonym fs = "string \<rightharpoonup> string"

record world =
  files :: fs
  run_calls :: "(string list \<times> fs) list"

text \<open>
  What the operating system and the external program answer is not decided by the module,
  so it is a parameter: whether \<^verbatim>\<open>NamedTemporaryFile\<close> raises or which name it picks,
  whether \<^verbatim>\<open>write\<close> or \<^verbatim>\<open>flush\<close> raise, whether closing a file that holds unflushed
  text raises, and what running a command does: it fails to start, or ends with an exit
  status, and leaves the file system as the program made it.
\<close>

record os =
  named_temporary_file :: "fs \<Rightarrow> exn + string"
  write_raises :: "exn option"
  flush_raises :: "exn option"
  close_raises :: "exn option"
  subprocess_run :: "string list \<Rightarrow> fs \<Rightarrow> (exn + int) \<times> fs"

text \<open>
  The body of the \<^verbatim>\<open>with\<close> statement, for the temporary file \<open>name\<close>. The argument
  of \<^verbatim>\<open>write\<close> is evaluated first; the text reaches the file when \<^verbatim>\<open>flush\<close> returns;
  \<^verbatim>\<open>check=True\<close> turns an exit status other than 0 into \<^verbatim>\<open>CalledProcessError\<close>.
  The body also tells whether it leaves text unflushed in the file object: \<^verbatim>\<open>write\<close> was
  called and \<^verbatim>\<open>flush\<close> has not returned.
\<close>

definition call_body ::
  "os \<Rightarrow> stage batch \<Rightarrow> string \<Rightarrow> string \<Rightarrow> world \<Rightarrow>
   stage batch \<times> world \<times> stage_call list \<times> bool \<times> (exn + unit)"
where
  "call_body env self input_file_pattern name w =
     (case get_batch_config_str self input_file_pattern of
        (self', calls, Inl e) \<Rightarrow> (self', w, calls, False, Inl e)
      | (self', calls, Inr text) \<Rightarrow>
          (case write_raises env of
             Some e \<Rightarrow> (self', w, calls, True, Inl e)
           | None \<Rightarrow>
               (case flush_raises env of
                  Some e \<Rightarrow> (self', w, calls, True, Inl e)
                | None \<Rightarrow>
                    (let written = (files w)(name \<mapsto> text);
                         cmd = [''sbebatch'', name];
                         ran = run_calls w @ [(cmd, written)]
                     in case subprocess_run env cmd written of
                          (Inl e, fs') \<Rightarrow>
                            (self', \<lparr>files = fs', run_calls = ran\<rparr>, calls, False, Inl e)
                        | (Inr returncode, fs') \<Rightarrow>
                            (self', \<lparr>files = fs', run_calls = ran\<rparr>, calls, False,
                             if returncode \<noteq> 0 then Inl (CalledProcessError returncode cmd)
                             else Inr ())))))"

text \<open>
  Leaving the \<^verbatim>\<open>with\<close> statement, as \<^verbatim>\<open>__exit__\<close> of \<^verbatim>\<open>NamedTemporaryFile\<close> does it in
  CPython 3.11 on POSIX. The file is closed first; closing writes the unflushed text and
  raises when that fails, and then the file is not deleted (the file object deletes it
  later, when it is released, which is after the caller has the exception). When closing
  has returned the file is deleted, and deleting a file that is no longer there raises
  \<^verbatim>\<open>FileNotFoundError\<close>. The result is the exception raised on leaving, if any, and the
  file system.
\<close>

definition exit_temporary_file :: "os \<Rightarrow> string \<Rightarrow> bool \<Rightarrow> fs \<Rightarrow> exn option \<times> fs" where
  "exit_temporary_file env name unflushed fs =
     (case (if unflushed then close_raises env else None) of
        Some e \<Rightarrow> (Some e, fs)
      | None \<Rightarrow>
          (case fs name of
             None \<Rightarrow> (Some (FileNotFoundError name), fs)
           | Some content \<Rightarrow> (None, fs(name := None))))"

text \<open>
  The method: \<^verbatim>\<open>NamedTemporaryFile\<close> creates the file, empty, or raises and creates
  nothing; the \<^verbatim>\<open>with\<close> statement is left whether the body returned or raised; an
  exception raised on leaving takes the place of the one of the body, and otherwise the
  exception of the body goes on to the caller.
\<close>

definition call ::
  "os \<Rightarrow> stage batch \<Rightarrow> string \<Rightarrow> world \<Rightarrow>
   stage batch \<times> world \<times> stage_call list \<times> (exn + unit)"
where
  "call env self input_file_pattern w =
     (case named_temporary_file env (files w) of
        Inl e \<Rightarrow> (self, w, [], Inl e)
      | Inr name \<Rightarrow>
          (case call_body env self input_file_pattern name (w\<lparr>files := (files w)(name \<mapsto> [])\<rparr>) of
             (self', w', calls, unflushed, r) \<Rightarrow>
               (case exit_temporary_file env name unflushed (files w') of
                  (Some e, fs') \<Rightarrow> (self', w'\<lparr>files := fs'\<rparr>, calls, Inl e)
                | (None, fs') \<Rightarrow> (self', w'\<lparr>files := fs'\<rparr>, calls, r))))"

subsection \<open>Rendering with stages that act on the world\<close>

text \<open>
  A method of a stage is Python code and may read and change the world. To say what the
  rendering itself does to the world, the loop is written once more for stages whose
  methods take the world and return it with their answer. The loop is the same, line for
  line; it hands the world from each call to the next and does nothing else to it.
\<close>

record stage_fx =
  get_exec_str_fx :: "string \<Rightarrow> bool \<Rightarrow> world \<Rightarrow> (exn + string) \<times> world"
  output_file_path_fx :: "string \<Rightarrow> world \<Rightarrow> (exn + string) \<times> world"

fun render_loop_fx ::
  "stage_fx list \<Rightarrow> string \<Rightarrow> string list \<Rightarrow> world \<Rightarrow>
   stage_fx list \<times> (exn + string list) \<times> world"
where
  "render_loop_fx [] next_input_file batch_config_str w = ([], Inr batch_config_str, w)"
| "render_loop_fx (config # rest) next_input_file batch_config_str w =
     (case get_exec_str_fx config next_input_file True w of
        (Inl e, w1) \<Rightarrow> (rest, Inl e, w1)
      | (Inr s, w1) \<Rightarrow>
          (case output_file_path_fx config next_input_file w1 of
             (Inl e, w2) \<Rightarrow> (rest, Inl e, w2)
           | (Inr p, w2) \<Rightarrow>
               render_loop_fx rest (path_name p) (batch_config_str @ [s]) w2))"

definition get_batch_config_str_fx ::
  "stage_fx batch \<Rightarrow> string \<Rightarrow> world \<Rightarrow> stage_fx batch \<times> (exn + string) \<times> world"
where
  "get_batch_config_str_fx self input_file_pattern w =
     (case render_loop_fx (items (stages self)) input_file_pattern [config_header_comment] w of
        (rest, r, w') \<Rightarrow>
          (self\<lparr>stages := consumed (stages self) rest\<rparr>,
           (case r of Inl e \<Rightarrow> Inl e | Inr batch_config_str \<Rightarrow> Inr (str_join newline batch_config_str)),
           w'))"

text \<open>A stage whose methods are functions of their arguments, among the stages that act.\<close>

definition pure_stage :: "stage \<Rightarrow> stage_fx" where
  "pure_stage c =
     \<lparr>get_exec_str_fx = (\<lambda>x b w. (get_exec_str c x b, w)),
      output_file_path_fx = (\<lambda>x w. (output_file_path c x, w))\<rparr>"

text \<open>
  A stage is deterministic when what its methods answer depends on their arguments and
  not on the world; it preserves an observation \<open>f\<close> of the world when no call of its
  methods changes what \<open>f\<close> sees.
\<close>

definition deterministic :: "stage_fx \<Rightarrow> bool" where
  "deterministic c \<longleftrightarrow>
     (\<forall>x b w w'. fst (get_exec_str_fx c x b w) = fst (get_exec_str_fx c x b w')) \<and>
     (\<forall>x w w'. fst (output_file_path_fx c x w) = fst (output_file_path_fx c x w'))"

definition preserves :: "(world \<Rightarrow> 'a) \<Rightarrow> stage_fx \<Rightarrow> bool" where
  "preserves f c \<longleftrightarrow>
     (\<forall>x b w. f (snd (get_exec_str_fx c x b w)) = f w) \<and>
     (\<forall>x w. f (snd (output_file_path_fx c x w)) = f w)"

subsection \<open>The stages and the surroundings of the examples\<close>

definition stageA :: stage where
  "stageA = \<lparr>get_exec_str = (\<lambda>p batch_mode. Inr (''stageA -i '' @ p)),
             output_file_path = (\<lambda>p. Inr ''dir/out_a.cnv'')\<rparr>"

definition stageB :: stage where
  "stageB = \<lparr>get_exec_str = (\<lambda>p batch_mode. Inr (''stageB -i '' @ p)),
             output_file_path = (\<lambda>p. Inr ''out_b.cnv'')\<rparr>"

text \<open>A stage whose command is fine and whose output path raises.\<close>

definition stageC :: stage where
  "stageC = \<lparr>get_exec_str = (\<lambda>p batch_mode. Inr (''stageC -i '' @ p)),
             output_file_path = (\<lambda>p. Inl (Exception ''no output directory''))\<rparr>"

text \<open>A stage whose command is two lines.\<close>

definition stageD :: stage where
  "stageD = \<lparr>get_exec_str = (\<lambda>p batch_mode. Inr (''stageD -i '' @ p @ [CHR 0x0A] @ ''pause'')),
             output_file_path = (\<lambda>p. Inr ''out_d.cnv'')\<rparr>"

text \<open>
  A stage that answers as stageA does and whose output path method makes sure the
  directory of its output is there, by a file in it.
\<close>

definition stageW :: stage_fx where
  "stageW = \<lparr>get_exec_str_fx = (\<lambda>p batch_mode w. (Inr (''stageA -i '' @ p), w)),
             output_file_path_fx =
               (\<lambda>p w. (Inr ''dir/out_a.cnv'', w\<lparr>files := (files w)(''dir/.keep'' \<mapsto> [])\<rparr>))\<rparr>"

text \<open>
  An operating system on which the temporary file is \<^verbatim>\<open>/tmp/tmpcfg.txt\<close>, writing
  works, and the program ends with the exit status \<open>rc\<close> and touches no file.
\<close>

definition os_exit :: "int \<Rightarrow> os" where
  "os_exit rc = \<lparr>named_temporary_file = (\<lambda>fs. Inr ''/tmp/tmpcfg.txt''),
                 write_raises = None,
                 flush_raises = None,
                 close_raises = None,
                 subprocess_run = (\<lambda>cmd fs. (Inr rc, fs))\<rparr>"



definition world0 :: world where
  "world0 = \<lparr>files = Map.empty, run_calls = []\<rparr>"

section \<open>Properties\<close>

subsection \<open>Splitting and joining\<close>

lemma str_split_no_sep: "c \<notin> set l \<Longrightarrow> str_split c l = [l]"
  by (induction l) auto

lemma str_split_append_sep: "c \<notin> set l \<Longrightarrow> str_split c (l @ c # xs) = l # str_split c xs"
  by (induction l) auto

lemma str_split_join:
  "ls \<noteq> [] \<Longrightarrow> \<forall>l\<in>set ls. c \<notin> set l \<Longrightarrow> str_split c (str_join [c] ls) = ls"
  by (induction "[c]" ls rule: str_join.induct) (auto simp: str_split_no_sep str_split_append_sep)

subsection \<open>The loop\<close>

lemma render_loop_Cons_cases:
  assumes "render_loop (config # cs) i x acc = (rest, calls, r)"
  obtains
    (exec_raises) e where
      "get_exec_str config x True = Inl e" "rest = cs" "calls = [Exec_call i x True]" "r = Inl e"
  | (output_raises) s e where
      "get_exec_str config x True = Inr s" "output_file_path config x = Inl e" "rest = cs"
      "calls = [Exec_call i x True, Output_call i x]" "r = Inl e"
  | (continues) s p calls' where
      "get_exec_str config x True = Inr s" "output_file_path config x = Inr p"
      "render_loop cs (Suc i) (path_name p) (acc @ [s]) = (rest, calls', r)"
      "calls = Exec_call i x True # Output_call i x # calls'"
proof (cases "get_exec_str config x True")
  case (Inl e)
  with assms exec_raises show ?thesis by simp
next
  case s: (Inr s)
  show ?thesis
  proof (cases "output_file_path config x")
    case (Inl e)
    with assms s output_raises show ?thesis by simp
  next
    case p: (Inr p)
    obtain rest' calls' r' where rec: "render_loop cs (Suc i) (path_name p) (acc @ [s]) = (rest', calls', r')"
      by (cases "render_loop cs (Suc i) (path_name p) (acc @ [s])") auto
    with assms s p have "rest = rest'" "calls = Exec_call i x True # Output_call i x # calls'" "r = r'"
      by simp_all
    with s p rec continues show ?thesis by simp
  qed
qed

lemma render_loop_stage_of:
  "render_loop cs i x acc = (rest, calls, r) \<Longrightarrow> c \<in> set calls \<Longrightarrow>
   i \<le> stage_of c \<and> stage_of c < i + length cs"
proof (induction cs arbitrary: i x acc rest calls r)
  case Nil
  then show ?case by simp
next
  case (Cons config cs)
  from Cons.prems(1) show ?case
  proof (cases rule: render_loop_Cons_cases)
    case (exec_raises e)
    with Cons.prems(2) show ?thesis by simp
  next
    case (output_raises s e)
    with Cons.prems(2) show ?thesis by auto
  next
    case (continues s p calls')
    show ?thesis
    proof (cases "c \<in> set calls'")
      case True
      from Cons.IH[OF continues(3) True] show ?thesis by simp
    next
      case False
      with Cons.prems(2) continues(4) show ?thesis by auto
    qed
  qed
qed

lemma render_loop_batch_mode:
  "render_loop cs i x acc = (rest, calls, r) \<Longrightarrow> Exec_call j y b \<in> set calls \<Longrightarrow> b"
proof (induction cs arbitrary: i x acc rest calls r)
  case Nil
  then show ?case by simp
next
  case (Cons config cs)
  from Cons.prems(1) show ?case
  proof (cases rule: render_loop_Cons_cases)
    case (exec_raises e)
    with Cons.prems(2) show ?thesis by simp
  next
    case (output_raises s e)
    with Cons.prems(2) show ?thesis by auto
  next
    case (continues s p calls')
    show ?thesis
    proof (cases "Exec_call j y b \<in> set calls'")
      case True
      from Cons.IH[OF continues(3) True] show ?thesis .
    next
      case False
      with Cons.prems(2) continues(4) show ?thesis by auto
    qed
  qed
qed

lemma render_loop_first:
  assumes "render_loop cs i x acc = (rest, calls, r)" "c \<in> set calls" "stage_of c = i"
  shows "input_of c = x"
proof (cases cs)
  case Nil
  with assms show ?thesis by simp
next
  case (Cons config cs')
  from assms(1)[unfolded Cons] show ?thesis
  proof (cases rule: render_loop_Cons_cases)
    case (exec_raises e)
    with assms(2) show ?thesis by simp
  next
    case (output_raises s e)
    with assms(2) show ?thesis by auto
  next
    case (continues s p calls')
    have "c \<notin> set calls'"
      using render_loop_stage_of[OF continues(3), of c] assms(3) by auto
    with assms(2) continues(4) show ?thesis by auto
  qed
qed

lemma render_loop_Inr:
  "render_loop cs i x acc = (rest, calls, Inr ls) \<Longrightarrow>
   rest = [] \<and> length calls = 2 * length cs \<and>
   (\<exists>new. ls = acc @ new \<and> length new = length cs \<and>
      (\<forall>k<length cs. \<exists>y. get_exec_str (cs ! k) y True = Inr (new ! k)))"
proof (induction cs arbitrary: i x acc rest calls)
  case Nil
  then show ?case by simp
next
  case (Cons config cs)
  from Cons.prems show ?case
  proof (cases rule: render_loop_Cons_cases)
    case (exec_raises e)
    then show ?thesis by simp
  next
    case (output_raises s e)
    then show ?thesis by simp
  next
    case (continues s p calls')
    from Cons.IH[OF continues(3)] obtain new where
      new: "rest = []" "length calls' = 2 * length cs" "ls = (acc @ [s]) @ new"
        "length new = length cs"
        "\<forall>k<length cs. \<exists>y. get_exec_str (cs ! k) y True = Inr (new ! k)"
      by blast
    have "\<forall>k<length (config # cs). \<exists>y. get_exec_str ((config # cs) ! k) y True = Inr ((s # new) ! k)"
    proof (intro allI impI)
      fix k assume "k < length (config # cs)"
      then show "\<exists>y. get_exec_str ((config # cs) ! k) y True = Inr ((s # new) ! k)"
        using continues(1) new(5) by (cases k) auto
    qed
    moreover have "ls = acc @ (s # new)" using new(3) by simp
    moreover have "length (s # new) = length (config # cs)" using new(4) by simp
    moreover have "length calls = 2 * length (config # cs)" using new(2) continues(4) by simp
    ultimately show ?thesis using new(1) by blast
  qed
qed

lemma render_loop_total:
  "\<forall>c\<in>set cs. \<forall>y. (\<exists>s. get_exec_str c y True = Inr s) \<and> (\<exists>p. output_file_path c y = Inr p) \<Longrightarrow>
   \<exists>ls. snd (snd (render_loop cs i x acc)) = Inr ls"
proof (induction cs arbitrary: i x acc)
  case Nil
  then show ?case by simp
next
  case (Cons config cs)
  from Cons.prems obtain s p where
    s: "get_exec_str config x True = Inr s" and p: "output_file_path config x = Inr p"
    by (meson list.set_intros(1))
  from Cons.prems have "\<forall>c\<in>set cs. \<forall>y. (\<exists>s. get_exec_str c y True = Inr s) \<and> (\<exists>p. output_file_path c y = Inr p)"
    by simp
  from Cons.IH[OF this, of "Suc i" "path_name p" "acc @ [s]"] obtain ls where
    "snd (snd (render_loop cs (Suc i) (path_name p) (acc @ [s]))) = Inr ls" by blast
  with s p show ?case by (auto split: prod.splits)
qed


lemma render_loop_thread:
  "render_loop cs i x acc = (rest, calls, r) \<Longrightarrow> c \<in> set calls \<Longrightarrow>
   stage_of c = Suc j \<Longrightarrow> i \<le> j \<Longrightarrow>
   \<exists>y p. Exec_call j y True \<in> set calls \<and> Output_call j y \<in> set calls \<and>
         output_file_path (cs ! (j - i)) y = Inr p \<and> input_of c = path_name p"
proof (induction cs arbitrary: i x acc rest calls r)
  case Nil
  then show ?case by simp
next
  case (Cons config cs)
  from Cons.prems(1) show ?case
  proof (cases rule: render_loop_Cons_cases)
    case (exec_raises e)
    with Cons.prems(2,3,4) show ?thesis by simp
  next
    case (output_raises s e)
    with Cons.prems(2,3,4) show ?thesis by auto
  next
    case (continues s p calls')
    from Cons.prems(2,3,4) continues(4) have c: "c \<in> set calls'" by auto
    show ?thesis
    proof (cases "j = i")
      case True
      with Cons.prems(3) have "input_of c = path_name p"
        using render_loop_first[OF continues(3) c] by simp
      with True continues(2,4) show ?thesis by auto
    next
      case False
      with Cons.prems(4) have le: "Suc i \<le> j" by simp
      from Cons.IH[OF continues(3) c Cons.prems(3) le] obtain y q where
        yq: "Exec_call j y True \<in> set calls'" "Output_call j y \<in> set calls'"
          "output_file_path (cs ! (j - Suc i)) y = Inr q" "input_of c = path_name q"
        by blast
      from le have "(config # cs) ! (j - i) = cs ! (j - Suc i)"
        by (simp add: Suc_diff_le)
      with yq continues(4) show ?thesis by auto
    qed
  qed
qed

lemma render_loop_raise:
  "render_loop cs i x acc = (rest, calls, r) \<Longrightarrow> c \<in> set calls \<Longrightarrow>
   answer (cs ! (stage_of c - i)) c = Inl e \<Longrightarrow>
   r = Inl e \<and> last calls = c \<and> (\<forall>c'\<in>set calls. stage_of c' \<le> stage_of c)"
proof (induction cs arbitrary: i x acc rest calls r)
  case Nil
  then show ?case by simp
next
  case (Cons config cs)
  from Cons.prems(1) show ?case
  proof (cases rule: render_loop_Cons_cases)
    case (exec_raises e')
    with Cons.prems(2,3) show ?thesis by simp
  next
    case (output_raises s e')
    with Cons.prems(2,3) show ?thesis by auto
  next
    case (continues s p calls')
    have c: "c \<in> set calls'"
      using Cons.prems(2,3) continues(1,2,4) by auto
    from render_loop_stage_of[OF continues(3) c] have le: "Suc i \<le> stage_of c" by simp
    then have "(config # cs) ! (stage_of c - i) = cs ! (stage_of c - Suc i)"
      by (simp add: Suc_diff_le)
    with Cons.prems(3) have "answer (cs ! (stage_of c - Suc i)) c = Inl e" by simp
    from Cons.IH[OF continues(3) c this] have
      ih: "r = Inl e" "last calls' = c" "\<forall>c'\<in>set calls'. stage_of c' \<le> stage_of c"
      by simp_all
    from c have "calls' \<noteq> []" by auto
    with ih(2) continues(4) have "last calls = c" by simp
    moreover from ih(3) le continues(4) have "\<forall>c'\<in>set calls. stage_of c' \<le> stage_of c"
      by auto
    ultimately show ?thesis using ih(1) by simp
  qed
qed

lemma render_loop_outputs:
  "render_loop cs i x acc = (rest, calls, Inr ls) \<Longrightarrow> k < length cs \<Longrightarrow>
   \<exists>y. Output_call (i + k) y \<in> set calls"
proof (induction cs arbitrary: i x acc rest calls k)
  case Nil
  then show ?case by simp
next
  case (Cons config cs)
  from Cons.prems(1) show ?case
  proof (cases rule: render_loop_Cons_cases)
    case (exec_raises e)
    then show ?thesis by simp
  next
    case (output_raises s e)
    then show ?thesis by simp
  next
    case (continues s p calls')
    show ?thesis
    proof (cases k)
      case 0
      with continues(4) show ?thesis by auto
    next
      case (Suc k')
      with Cons.prems(2) have "k' < length cs" by simp
      from Cons.IH[OF continues(3) this] obtain y where "Output_call (Suc i + k') y \<in> set calls'"
        by blast
      with Suc continues(4) show ?thesis by auto
    qed
  qed
qed

lemma render_loop_output_follows:
  "render_loop cs i x acc = (rest, calls, r) \<Longrightarrow> Exec_call j y b \<in> set calls \<Longrightarrow>
   get_exec_str (cs ! (j - i)) y b = Inr s \<Longrightarrow> Output_call j y \<in> set calls"
proof (induction cs arbitrary: i x acc rest calls r)
  case Nil
  then show ?case by simp
next
  case (Cons config cs)
  from Cons.prems(1) show ?case
  proof (cases rule: render_loop_Cons_cases)
    case (exec_raises e)
    with Cons.prems(2,3) show ?thesis by simp
  next
    case (output_raises s' e)
    with Cons.prems(2) show ?thesis by auto
  next
    case (continues s' p calls')
    show ?thesis
    proof (cases "Exec_call j y b \<in> set calls'")
      case True
      from render_loop_stage_of[OF continues(3) True] have le: "Suc i \<le> j" by simp
      then have "(config # cs) ! (j - i) = cs ! (j - Suc i)"
        by (simp add: Suc_diff_le)
      with Cons.prems(3) have "get_exec_str (cs ! (j - Suc i)) y b = Inr s" by simp
      from Cons.IH[OF continues(3) True this] continues(4) show ?thesis by simp
    next
      case False
      with Cons.prems(2) continues(4) show ?thesis by auto
    qed
  qed
qed

lemma render_loop_exec_precedes:
  "render_loop cs i x acc = (rest, calls, r) \<Longrightarrow> Output_call j y \<in> set calls \<Longrightarrow>
   Exec_call j y True \<in> set calls \<and> (\<exists>s. get_exec_str (cs ! (j - i)) y True = Inr s)"
proof (induction cs arbitrary: i x acc rest calls r)
  case Nil
  then show ?case by simp
next
  case (Cons config cs)
  from Cons.prems(1) show ?case
  proof (cases rule: render_loop_Cons_cases)
    case (exec_raises e)
    with Cons.prems(2) show ?thesis by simp
  next
    case (output_raises s' e)
    with Cons.prems(2) show ?thesis by auto
  next
    case (continues s' p calls')
    show ?thesis
    proof (cases "Output_call j y \<in> set calls'")
      case True
      from render_loop_stage_of[OF continues(3) True] have le: "Suc i \<le> j" by simp
      then have "(config # cs) ! (j - i) = cs ! (j - Suc i)"
        by (simp add: Suc_diff_le)
      with Cons.IH[OF continues(3) True] continues(4) show ?thesis by simp
    next
      case False
      with Cons.prems(2) continues(1,4) show ?thesis by auto
    qed
  qed
qed

subsection \<open>The method \<^verbatim>\<open>get_batch_config_str\<close>\<close>

lemma header_no_newline: "CHR 0x0A \<notin> set config_header_comment"
  by (simp add: config_header_comment_def)

lemma get_batch_config_str_eq:
  "render_loop (items (stages self)) 0 inp [config_header_comment] = (rest, calls, r) \<Longrightarrow>
   get_batch_config_str self inp =
     (self\<lparr>stages := consumed (stages self) rest\<rparr>, calls,
      case r of Inl e \<Rightarrow> Inl e | Inr ls \<Rightarrow> Inr (str_join newline ls))"
  by (simp add: get_batch_config_str_def)

lemma get_batch_config_str_cases:
  assumes "get_batch_config_str self inp = (self', calls, r)"
  obtains rest r' where
    "render_loop (items (stages self)) 0 inp [config_header_comment] = (rest, calls, r')"
    "self' = self\<lparr>stages := consumed (stages self) rest\<rparr>"
    "r = (case r' of Inl e \<Rightarrow> Inl e | Inr ls \<Rightarrow> Inr (str_join newline ls))"
proof -
  obtain rest calls' r' where
    rl: "render_loop (items (stages self)) 0 inp [config_header_comment] = (rest, calls', r')"
    by (cases "render_loop (items (stages self)) 0 inp [config_header_comment]") auto
  from get_batch_config_str_eq[OF rl] assms rl that show ?thesis by simp
qed

lemma get_batch_config_str_raise:
  assumes "get_batch_config_str self inp = (self', calls, r)" "c \<in> set calls"
    "answer (items (stages self) ! stage_of c) c = Inl e"
  shows "r = Inl e \<and> last calls = c \<and> (\<forall>c'\<in>set calls. stage_of c' \<le> stage_of c)"
proof -
  from assms(1) obtain rest r' where
    rl: "render_loop (items (stages self)) 0 inp [config_header_comment] = (rest, calls, r')" and
    r: "r = (case r' of Inl e \<Rightarrow> Inl e | Inr ls \<Rightarrow> Inr (str_join newline ls))"
    by (rule get_batch_config_str_cases)
  from assms(3) have "answer (items (stages self) ! (stage_of c - 0)) c = Inl e" by simp
  from render_loop_raise[OF rl assms(2) this] r show ?thesis by simp
qed

lemma get_batch_config_str_Sequence:
  "stages self = Sequence xs \<Longrightarrow> fst (get_batch_config_str self inp) = self"
  by (simp add: get_batch_config_str_def split: prod.splits)

subsection \<open>The method \<^verbatim>\<open>__call__\<close>\<close>

lemma call_body_render_raises:
  "get_batch_config_str self inp = (self', calls, Inl e) \<Longrightarrow>
   call_body env self inp name w = (self', w, calls, False, Inl e)"
  by (simp add: call_body_def)

lemma call_body_parts:
  "get_batch_config_str self inp = (self', calls, r0) \<Longrightarrow>
   \<exists>w' u r. call_body env self inp name w = (self', w', calls, u, r)"
  by (cases r0) (auto simp: call_body_def Let_def split: option.splits sum.splits prod.splits)

lemma call_parts:
  assumes "named_temporary_file env (files w) = Inr name"
    and "call_body env self inp name (w\<lparr>files := (files w)(name \<mapsto> [])\<rparr>) = (self', w1, calls, u, r1)"
  shows "\<exists>w' r. call env self inp w = (self', w', calls, r) \<and> run_calls w' = run_calls w1"
  using assms by (auto simp: call_def split: prod.splits option.splits)

lemma call_calls:
  assumes "call env self inp w = (self', w', calls, r)" "c \<in> set calls"
  shows "\<exists>r0. get_batch_config_str self inp = (self', calls, r0) \<and>
    (\<forall>e. r0 = Inl e \<longrightarrow> r = Inl e \<and> run_calls w' = run_calls w)"
proof (cases "named_temporary_file env (files w)")
  case (Inl e)
  with assms show ?thesis by (simp add: call_def)
next
  case (Inr name)
  let ?w1 = "w\<lparr>files := (files w)(name \<mapsto> [])\<rparr>"
  obtain s0 calls0 r0 where g: "get_batch_config_str self inp = (s0, calls0, r0)"
    by (cases "get_batch_config_str self inp") auto
  from call_body_parts[OF g, of env name ?w1] obtain w1 u r1 where
    b: "call_body env self inp name ?w1 = (s0, w1, calls0, u, r1)" by blast
  from call_parts[OF Inr b] assms(1) have sc: "self' = s0" "calls = calls0" by auto
  have "\<forall>e. r0 = Inl e \<longrightarrow> r = Inl e \<and> run_calls w' = run_calls w"
  proof (intro allI impI)
    fix e assume "r0 = Inl e"
    with g have "call_body env self inp name ?w1 = (s0, ?w1, calls0, False, Inl e)"
      by (simp add: call_body_render_raises)
    with Inr assms(1) show "r = Inl e \<and> run_calls w' = run_calls w"
      by (auto simp: call_def exit_temporary_file_def)
  qed
  with g sc show ?thesis by simp
qed

lemma call_self:
  "fst (call env self inp w) =
     (case named_temporary_file env (files w) of
        Inl e \<Rightarrow> self
      | Inr name \<Rightarrow> fst (get_batch_config_str self inp))"
proof (cases "named_temporary_file env (files w)")
  case (Inl e)
  then show ?thesis by (simp add: call_def)
next
  case (Inr name)
  let ?w1 = "w\<lparr>files := (files w)(name \<mapsto> [])\<rparr>"
  obtain s0 calls0 r0 where g: "get_batch_config_str self inp = (s0, calls0, r0)"
    by (cases "get_batch_config_str self inp") auto
  from call_body_parts[OF g, of env name ?w1] obtain w1 u r1 where
    b: "call_body env self inp name ?w1 = (s0, w1, calls0, u, r1)" by blast
  from call_parts[OF Inr b] obtain w' r where "call env self inp w = (s0, w', calls0, r)"
    by blast
  with Inr g show ?thesis by simp
qed

subsection \<open>The loop with stages that act on the world\<close>

text \<open>
  For stages whose methods are functions of their arguments the loop with the world is the
  loop without it (\<open>render_loop_fx_pure_stage\<close>).
\<close>

lemma render_loop_fx_deterministic:
  "\<forall>c\<in>set cs. deterministic c \<Longrightarrow>
   fst (render_loop_fx cs x acc w) = fst (render_loop_fx cs x acc w2) \<and>
   fst (snd (render_loop_fx cs x acc w)) = fst (snd (render_loop_fx cs x acc w2))"
proof (induction cs arbitrary: x acc w w2)
  case Nil
  then show ?case by simp
next
  case (Cons config cs)
  from Cons.prems have d: "deterministic config" and ds: "\<forall>c\<in>set cs. deterministic c"
    by simp_all
  obtain a w1 where e1: "get_exec_str_fx config x True w = (a, w1)"
    by (cases "get_exec_str_fx config x True w") auto
  obtain a' w1' where e2: "get_exec_str_fx config x True w2 = (a', w1')"
    by (cases "get_exec_str_fx config x True w2") auto
  from d e1 e2 have a: "a' = a" unfolding deterministic_def by (metis fst_conv)
  show ?case
  proof (cases a)
    case (Inl e)
    with e1 e2 a show ?thesis by simp
  next
    case s: (Inr s)
    obtain b v1 where o1: "output_file_path_fx config x w1 = (b, v1)"
      by (cases "output_file_path_fx config x w1") auto
    obtain b' v1' where o2: "output_file_path_fx config x w1' = (b', v1')"
      by (cases "output_file_path_fx config x w1'") auto
    from d o1 o2 have b: "b' = b" unfolding deterministic_def by (metis fst_conv)
    show ?thesis
    proof (cases b)
      case (Inl e)
      with e1 e2 a s o1 o2 b show ?thesis by simp
    next
      case (Inr p)
      with e1 e2 a s o1 o2 b Cons.IH[OF ds, of "path_name p" "acc @ [s]" v1 v1']
      show ?thesis by simp
    qed
  qed
qed

lemma render_loop_fx_preserves:
  "\<forall>c\<in>set cs. preserves f c \<Longrightarrow> f (snd (snd (render_loop_fx cs x acc w))) = f w"
proof (induction cs arbitrary: x acc w)
  case Nil
  then show ?case by simp
next
  case (Cons config cs)
  from Cons.prems have p: "preserves f config" and ps: "\<forall>c\<in>set cs. preserves f c"
    by simp_all
  obtain a w1 where e1: "get_exec_str_fx config x True w = (a, w1)"
    by (cases "get_exec_str_fx config x True w") auto
  from p e1 have f1: "f w1 = f w" unfolding preserves_def by (metis snd_conv)
  show ?case
  proof (cases a)
    case (Inl e)
    with e1 f1 show ?thesis by simp
  next
    case s: (Inr s)
    obtain b v1 where o1: "output_file_path_fx config x w1 = (b, v1)"
      by (cases "output_file_path_fx config x w1") auto
    from p o1 have f2: "f v1 = f w1" unfolding preserves_def by (metis snd_conv)
    show ?thesis
    proof (cases b)
      case (Inl e)
      with e1 s o1 f1 f2 show ?thesis by simp
    next
      case (Inr p)
      with e1 s o1 f1 f2 Cons.IH[OF ps, of "path_name p" "acc @ [s]" v1]
      show ?thesis by simp
    qed
  qed
qed

lemma render_loop_fx_pure_stage:
  "render_loop cs i x acc = (rest, calls, r) \<Longrightarrow>
   render_loop_fx (map pure_stage cs) x acc w = (map pure_stage rest, r, w)"
proof (induction cs arbitrary: i x acc rest calls r)
  case Nil
  then show ?case by simp
next
  case (Cons config cs)
  from Cons.prems show ?case
  proof (cases rule: render_loop_Cons_cases)
    case (exec_raises e)
    then show ?thesis by (simp add: pure_stage_def)
  next
    case (output_raises s e)
    then show ?thesis by (simp add: pure_stage_def)
  next
    case (continues s p calls')
    from Cons.IH[OF continues(3)] continues(1,2) show ?thesis
      by (simp add: pure_stage_def)
  qed
qed

lemma get_batch_config_str_fx_pure_stage:
  assumes "get_batch_config_str self inp = (self', calls, r)"
  shows "get_batch_config_str_fx \<lparr>stages = Sequence (map pure_stage (items (stages self)))\<rparr> inp w =
    (\<lparr>stages = Sequence (map pure_stage (items (stages self)))\<rparr>, r, w)"
proof -
  from assms obtain rest r' where
    rl: "render_loop (items (stages self)) 0 inp [config_header_comment] = (rest, calls, r')" and
    r: "r = (case r' of Inl e \<Rightarrow> Inl e | Inr ls \<Rightarrow> Inr (str_join newline ls))"
    by (rule get_batch_config_str_cases)
  from render_loop_fx_pure_stage[OF rl, of w] r show ?thesis
    by (simp add: get_batch_config_str_fx_def)
qed

section \<open>The claims\<close>

text \<open>
  C1, as stated, fails: nothing keeps a newline out of the command of a stage, and a
  pipeline of one stage whose command is two lines renders to a text of three lines.
\<close>

theorem newline_in_command_adds_a_line:
  "snd (snd (get_batch_config_str (init (Sequence [stageD])) ''raw*.hex'')) =
     Inr (''@ Generated by the seabird-processing Python package'' @ [CHR 0x0A] @
          ''stageD -i raw*.hex'' @ [CHR 0x0A] @ ''pause'') \<and>
   str_split (CHR 0x0A)
     (''@ Generated by the seabird-processing Python package'' @ [CHR 0x0A] @
      ''stageD -i raw*.hex'' @ [CHR 0x0A] @ ''pause'') =
     [''@ Generated by the seabird-processing Python package'', ''stageD -i raw*.hex'', ''pause''] \<and>
   length (items (stages (init (Sequence [stageD])))) + 1 = 2"
  by (simp add: get_batch_config_str_def init_def stageD_def path_name_def path_parts_def
      config_header_comment_def newline_def)

text \<open>
  C1, amended. Rendering a pipeline of \<open>n\<close> stages returns the header followed by the
  command of each stage, joined by single newlines with none added at the end: it returns
  when no stage raises; the list it joins has \<open>n + 1\<close> elements, the first being the
  header comment letter for letter and element \<open>k + 1\<close> being what stage \<open>k\<close> gave as
  its command; and when no command holds a newline, cutting the text at its newlines
  gives these \<open>n + 1\<close> lines back.
\<close>

theorem get_batch_config_str_lines:
  "((\<forall>c\<in>set (items (stages self)). \<forall>y.
       (\<exists>s. get_exec_str c y True = Inr s) \<and> (\<exists>p. output_file_path c y = Inr p)) \<longrightarrow>
    (\<exists>text. snd (snd (get_batch_config_str self inp)) = Inr text)) \<and>
   (render_loop (items (stages self)) 0 inp [config_header_comment] = (rest, calls, Inr ls) \<longrightarrow>
    snd (snd (get_batch_config_str self inp)) = Inr (str_join newline ls) \<and>
    length ls = length (items (stages self)) + 1 \<and>
    hd ls = ''@ Generated by the seabird-processing Python package'' \<and>
    (\<forall>k<length (items (stages self)).
       \<exists>y. get_exec_str (items (stages self) ! k) y True = Inr (ls ! Suc k)) \<and>
    ((\<forall>l\<in>set ls. CHR 0x0A \<notin> set l) \<longrightarrow>
       str_split (CHR 0x0A) (str_join newline ls) = ls))"
proof (intro conjI impI)
  assume "\<forall>c\<in>set (items (stages self)). \<forall>y.
       (\<exists>s. get_exec_str c y True = Inr s) \<and> (\<exists>p. output_file_path c y = Inr p)"
  from render_loop_total[OF this, of 0 inp "[config_header_comment]"] obtain ls' where
    "snd (snd (render_loop (items (stages self)) 0 inp [config_header_comment])) = Inr ls'"
    by blast
  then show "\<exists>text. snd (snd (get_batch_config_str self inp)) = Inr text"
    by (auto simp: get_batch_config_str_def split: prod.splits)
next
  assume rl: "render_loop (items (stages self)) 0 inp [config_header_comment] = (rest, calls, Inr ls)"
  from get_batch_config_str_eq[OF rl]
  show "snd (snd (get_batch_config_str self inp)) = Inr (str_join newline ls)" by simp
  from render_loop_Inr[OF rl] obtain new where
    new: "ls = [config_header_comment] @ new" "length new = length (items (stages self))"
      "\<forall>k<length (items (stages self)).
         \<exists>y. get_exec_str (items (stages self) ! k) y True = Inr (new ! k)"
    by blast
  from new(1,2) show "length ls = length (items (stages self)) + 1" by simp
  from new(1) show "hd ls = ''@ Generated by the seabird-processing Python package''"
    by (simp add: config_header_comment_def)
  from new(1,3) show "\<forall>k<length (items (stages self)).
       \<exists>y. get_exec_str (items (stages self) ! k) y True = Inr (ls ! Suc k)"
    by simp
  assume "\<forall>l\<in>set ls. CHR 0x0A \<notin> set l"
  moreover from new(1) have "ls \<noteq> []" by simp
  ultimately show "str_split (CHR 0x0A) (str_join newline ls) = ls"
    unfolding newline_def by (simp add: str_split_join)
qed

theorem get_batch_config_str_lines_witness:
  "snd (snd (get_batch_config_str (init (Sequence [stageA, stageB])) ''raw*.hex'')) =
     Inr (str_join newline
       [''@ Generated by the seabird-processing Python package'',
        ''stageA -i raw*.hex'', ''stageB -i out_a.cnv'']) \<and>
   length [''@ Generated by the seabird-processing Python package'',
        ''stageA -i raw*.hex'', ''stageB -i out_a.cnv''] = length [stageA, stageB] + 1 \<and>
   str_split (CHR 0x0A) (str_join newline
       [''@ Generated by the seabird-processing Python package'',
        ''stageA -i raw*.hex'', ''stageB -i out_a.cnv'']) =
     [''@ Generated by the seabird-processing Python package'',
      ''stageA -i raw*.hex'', ''stageB -i out_a.cnv'']"
proof -
  let ?ls = "[''@ Generated by the seabird-processing Python package'',
        ''stageA -i raw*.hex'', ''stageB -i out_a.cnv'']"
  have rl: "render_loop (items (stages (init (Sequence [stageA, stageB])))) 0 ''raw*.hex''
      [config_header_comment] =
    ([], [Exec_call 0 ''raw*.hex'' True, Output_call 0 ''raw*.hex'',
          Exec_call 1 ''out_a.cnv'' True, Output_call 1 ''out_a.cnv''], Inr ?ls)"
    by (simp add: init_def stageA_def stageB_def path_name_def path_parts_def
        config_header_comment_def)
  have nl: "\<forall>l\<in>set ?ls. CHR 0x0A \<notin> set l" by simp
  from get_batch_config_str_lines[of "init (Sequence [stageA, stageB])" "''raw*.hex''"
      "[]" "[Exec_call 0 ''raw*.hex'' True, Output_call 0 ''raw*.hex'',
          Exec_call 1 ''out_a.cnv'' True, Output_call 1 ''out_a.cnv'']" ?ls] rl nl
  show ?thesis by (simp add: init_def)
qed

text \<open>
  C2. Every call the rendering makes on a stage belongs to a stage of the pipeline; the
  command is always asked for with \<^verbatim>\<open>batch_mode=True\<close>; the calls on stage 0 are given
  the caller's input pattern as it is; and the calls on a stage \<open>j + 1\<close> are given the name,
  without its directories, of the output path that stage \<open>j\<close> returned for the input it
  was itself given.
\<close>

theorem get_batch_config_str_threads_inputs:
  assumes "get_batch_config_str self inp = (self', calls, r)" "c \<in> set calls"
  shows "stage_of c < length (items (stages self)) \<and>
    (\<forall>j y b. c = Exec_call j y b \<longrightarrow> b) \<and>
    (stage_of c = 0 \<longrightarrow> input_of c = inp) \<and>
    (\<forall>j. stage_of c = Suc j \<longrightarrow>
       (\<exists>y p. Exec_call j y True \<in> set calls \<and> Output_call j y \<in> set calls \<and>
              output_file_path (items (stages self) ! j) y = Inr p \<and>
              input_of c = path_name p))"
proof -
  from assms(1) obtain rest r' where
    rl: "render_loop (items (stages self)) 0 inp [config_header_comment] = (rest, calls, r')"
    by (rule get_batch_config_str_cases)
  from render_loop_stage_of[OF rl assms(2)]
  have "stage_of c < length (items (stages self))" by simp
  moreover have "\<forall>j y b. c = Exec_call j y b \<longrightarrow> b"
    using render_loop_batch_mode[OF rl] assms(2) by blast
  moreover have "stage_of c = 0 \<longrightarrow> input_of c = inp"
    using render_loop_first[OF rl assms(2)] by simp
  moreover have "\<forall>j. stage_of c = Suc j \<longrightarrow>
       (\<exists>y p. Exec_call j y True \<in> set calls \<and> Output_call j y \<in> set calls \<and>
              output_file_path (items (stages self) ! j) y = Inr p \<and>
              input_of c = path_name p)"
  proof (intro allI impI)
    fix j assume "stage_of c = Suc j"
    from render_loop_thread[OF rl assms(2) this] show
      "\<exists>y p. Exec_call j y True \<in> set calls \<and> Output_call j y \<in> set calls \<and>
              output_file_path (items (stages self) ! j) y = Inr p \<and>
              input_of c = path_name p"
      by simp
  qed
  ultimately show ?thesis by blast
qed

theorem get_batch_config_str_threads_inputs_witness:
  "Exec_call 1 ''out_a.cnv'' True \<in>
     set (fst (snd (get_batch_config_str (init (Sequence [stageA, stageB])) ''raw*.hex''))) \<and>
   (\<exists>y p. Exec_call 0 y True \<in>
            set (fst (snd (get_batch_config_str (init (Sequence [stageA, stageB])) ''raw*.hex''))) \<and>
          Output_call 0 y \<in>
            set (fst (snd (get_batch_config_str (init (Sequence [stageA, stageB])) ''raw*.hex''))) \<and>
          output_file_path stageA y = Inr p \<and> ''out_a.cnv'' = path_name p)"
proof -
  let ?calls = "[Exec_call 0 ''raw*.hex'' True, Output_call 0 ''raw*.hex'',
                 Exec_call 1 ''out_a.cnv'' True, Output_call 1 ''out_a.cnv'']"
  have g: "get_batch_config_str (init (Sequence [stageA, stageB])) ''raw*.hex'' =
      (init (Sequence [stageA, stageB]), ?calls,
       Inr (str_join newline [config_header_comment, ''stageA -i raw*.hex'', ''stageB -i out_a.cnv'']))"
    by (simp add: get_batch_config_str_def init_def stageA_def stageB_def path_name_def
        path_parts_def)
  have m: "Exec_call 1 ''out_a.cnv'' True \<in> set ?calls" by simp
  from get_batch_config_str_threads_inputs[OF g m] g show ?thesis
    by (simp add: init_def)
qed







text \<open>
  C5, as stated, fails: rendering reads the stored iterable, and an iterator is used up by
  the first rendering, so the second one returns the header alone.
\<close>

theorem iterator_second_render_differs:
  "snd (snd (get_batch_config_str (init (Iterator [stageA, stageB])) ''raw*.hex'')) =
     Inr (''@ Generated by the seabird-processing Python package'' @ [CHR 0x0A] @
          ''stageA -i raw*.hex'' @ [CHR 0x0A] @ ''stageB -i out_a.cnv'') \<and>
   snd (snd (get_batch_config_str
     (fst (get_batch_config_str (init (Iterator [stageA, stageB])) ''raw*.hex'')) ''raw*.hex'')) =
     Inr ''@ Generated by the seabird-processing Python package'' \<and>
   snd (snd (get_batch_config_str
     (fst (get_batch_config_str (init (Iterator [stageA, stageB])) ''raw*.hex'')) ''raw*.hex'')) \<noteq>
   snd (snd (get_batch_config_str (init (Iterator [stageA, stageB])) ''raw*.hex''))"
  by (simp add: get_batch_config_str_def init_def stageA_def stageB_def path_name_def
      path_parts_def config_header_comment_def newline_def)

text \<open>
  C5, amended. When the stored stages are a sequence that can be read again (a list, a
  tuple) and each stage is deterministic, a rendering leaves the pipeline as it was;
  rendering again with the same input pattern returns the same text or raises the same
  exception, in the world the first rendering left and in any other; and the rendering
  has no effect of its own on the world: what no call of a stage changes, the file system
  or the record of the processes run, is after the rendering what it was before.
\<close>

theorem get_batch_config_str_fx_repeatable:
  assumes "stages self = Sequence xs" and "\<forall>c\<in>set xs. deterministic c"
    and "get_batch_config_str_fx self inp w = (self', r, w')"
  shows "self' = self \<and>
         fst (snd (get_batch_config_str_fx self' inp w')) = r \<and>
         fst (snd (get_batch_config_str_fx self inp w2)) = r \<and>
         ((\<forall>c\<in>set xs. preserves f c) \<longrightarrow> f w' = f w)"
proof -
  from assms(1,3) have s: "self' = self"
    by (auto simp: get_batch_config_str_fx_def split: prod.splits)
  have d: "fst (snd (get_batch_config_str_fx self inp v)) = r" for v
  proof -
    from render_loop_fx_deterministic[OF assms(2), of inp "[config_header_comment]" w v]
    have "fst (snd (render_loop_fx xs inp [config_header_comment] w)) =
          fst (snd (render_loop_fx xs inp [config_header_comment] v))" by simp
    with assms(1,3) show ?thesis
      by (auto simp: get_batch_config_str_fx_def split: prod.splits)
  qed
  have p: "(\<forall>c\<in>set xs. preserves f c) \<longrightarrow> f w' = f w"
  proof
    assume "\<forall>c\<in>set xs. preserves f c"
    from render_loop_fx_preserves[OF this, of inp "[config_header_comment]" w] assms(1,3)
    show "f w' = f w"
      by (auto simp: get_batch_config_str_fx_def split: prod.splits)
  qed
  from s d[of w'] d[of w2] p show ?thesis by simp
qed

theorem get_batch_config_str_fx_repeatable_witness:
  "deterministic stageW \<and> deterministic (pure_stage stageB) \<and>
   preserves run_calls stageW \<and> preserves run_calls (pure_stage stageB) \<and>
   fst (snd (get_batch_config_str_fx (init (Sequence [stageW, pure_stage stageB])) ''raw*.hex'' world0)) =
     Inr (''@ Generated by the seabird-processing Python package'' @ [CHR 0x0A] @
          ''stageA -i raw*.hex'' @ [CHR 0x0A] @ ''stageB -i out_a.cnv'') \<and>
   files (snd (snd (get_batch_config_str_fx (init (Sequence [stageW, pure_stage stageB])) ''raw*.hex'' world0)))
     ''dir/.keep'' = Some [] \<and>
   fst (snd (get_batch_config_str_fx (init (Sequence [stageW, pure_stage stageB])) ''raw*.hex''
     (snd (snd (get_batch_config_str_fx (init (Sequence [stageW, pure_stage stageB])) ''raw*.hex'' world0))))) =
     Inr (''@ Generated by the seabird-processing Python package'' @ [CHR 0x0A] @
          ''stageA -i raw*.hex'' @ [CHR 0x0A] @ ''stageB -i out_a.cnv'') \<and>
   run_calls (snd (snd (get_batch_config_str_fx (init (Sequence [stageW, pure_stage stageB])) ''raw*.hex'' world0))) =
     run_calls world0"
proof -
  let ?b = "init (Sequence [stageW, pure_stage stageB])"
  have d: "\<forall>c\<in>set [stageW, pure_stage stageB]. deterministic c"
    by (simp add: deterministic_def stageW_def pure_stage_def)
  have p: "\<forall>c\<in>set [stageW, pure_stage stageB]. preserves run_calls c"
    by (simp add: preserves_def stageW_def pure_stage_def)
  have s: "stages ?b = Sequence [stageW, pure_stage stageB]" by (simp add: init_def)
  obtain self' r w' where g: "get_batch_config_str_fx ?b ''raw*.hex'' world0 = (self', r, w')"
    by (cases "get_batch_config_str_fx ?b ''raw*.hex'' world0") auto
  have r: "fst (snd (get_batch_config_str_fx ?b ''raw*.hex'' world0)) =
     Inr (''@ Generated by the seabird-processing Python package'' @ [CHR 0x0A] @
          ''stageA -i raw*.hex'' @ [CHR 0x0A] @ ''stageB -i out_a.cnv'')"
    and k: "files (snd (snd (get_batch_config_str_fx ?b ''raw*.hex'' world0))) ''dir/.keep'' = Some []"
    by (simp_all add: get_batch_config_str_fx_def init_def stageW_def stageB_def pure_stage_def
        path_name_def path_parts_def config_header_comment_def newline_def)
  from g have w': "w' = snd (snd (get_batch_config_str_fx ?b ''raw*.hex'' world0))"
    and r': "r = fst (snd (get_batch_config_str_fx ?b ''raw*.hex'' world0))" by simp_all
  note inst = get_batch_config_str_fx_repeatable[OF s d g, of world0 run_calls]
  from inst have t1: "self' = ?b" by (rule conjunct1)
  from inst have t2: "fst (snd (get_batch_config_str_fx self' ''raw*.hex'' w')) = r" by blast
  from inst p have t3: "run_calls w' = run_calls world0" by blast
  note t = t1 t2 t3
  from t(1,2) w' r' r have again:
    "fst (snd (get_batch_config_str_fx ?b ''raw*.hex''
       (snd (snd (get_batch_config_str_fx ?b ''raw*.hex'' world0))))) =
     Inr (''@ Generated by the seabird-processing Python package'' @ [CHR 0x0A] @
          ''stageA -i raw*.hex'' @ [CHR 0x0A] @ ''stageB -i out_a.cnv'')"
    by simp
  from t(3) w' have same: "run_calls (snd (snd (get_batch_config_str_fx ?b ''raw*.hex'' world0))) =
     run_calls world0" by simp
  from d p have dp: "deterministic stageW \<and> deterministic (pure_stage stageB) \<and>
   preserves run_calls stageW \<and> preserves run_calls (pure_stage stageB)" by simp
  from dp r k again same show ?thesis by blast
qed

text \<open>
  C6. When a stage answers a call of the rendering with an exception, the rendering raises
  that very exception, the call is the last one made, and no stage after it is called;
  a run raises the same exception and does not start the external program.
\<close>

theorem stage_error_propagates:
  assumes "c \<in> set calls" "answer (items (stages self) ! stage_of c) c = Inl e"
  shows "(get_batch_config_str self inp = (self', calls, r) \<longrightarrow>
            r = Inl e \<and> last calls = c \<and> (\<forall>c'\<in>set calls. stage_of c' \<le> stage_of c)) \<and>
         (call env self inp w = (self', w', calls, r') \<longrightarrow>
            r' = Inl e \<and> last calls = c \<and> (\<forall>c'\<in>set calls. stage_of c' \<le> stage_of c) \<and>
            run_calls w' = run_calls w)"
proof (intro conjI impI)
  assume g: "get_batch_config_str self inp = (self', calls, r)"
  from get_batch_config_str_raise[OF g assms]
  show "r = Inl e" "last calls = c" "\<forall>c'\<in>set calls. stage_of c' \<le> stage_of c" by simp_all
next
  assume c: "call env self inp w = (self', w', calls, r')"
  from call_calls[OF c assms(1)] obtain r0 where
    g: "get_batch_config_str self inp = (self', calls, r0)" and
    r0: "\<And>e. r0 = Inl e \<Longrightarrow> r' = Inl e \<and> run_calls w' = run_calls w"
    by blast
  from get_batch_config_str_raise[OF g assms] have
    *: "r0 = Inl e" "last calls = c" "\<forall>c'\<in>set calls. stage_of c' \<le> stage_of c" by simp_all
  from r0[OF *(1)] * show "r' = Inl e" "last calls = c"
    "\<forall>c'\<in>set calls. stage_of c' \<le> stage_of c" "run_calls w' = run_calls w" by simp_all
qed

theorem stage_error_propagates_witness:
  "Output_call 1 ''out_a.cnv'' \<in>
     set (fst (snd (get_batch_config_str (init (Sequence [stageA, stageC, stageB])) ''raw*.hex''))) \<and>
   answer ([stageA, stageC, stageB] ! 1) (Output_call 1 ''out_a.cnv'') =
     Inl (Exception ''no output directory'') \<and>
   snd (snd (get_batch_config_str (init (Sequence [stageA, stageC, stageB])) ''raw*.hex'')) =
     Inl (Exception ''no output directory'') \<and>
   snd (snd (snd (call (os_exit 0) (init (Sequence [stageA, stageC, stageB])) ''raw*.hex'' world0))) =
     Inl (Exception ''no output directory'') \<and>
   run_calls (fst (snd (call (os_exit 0) (init (Sequence [stageA, stageC, stageB])) ''raw*.hex'' world0))) =
     []"
proof -
  let ?b = "init (Sequence [stageA, stageC, stageB])"
  let ?calls = "[Exec_call 0 ''raw*.hex'' True, Output_call 0 ''raw*.hex'',
                 Exec_call 1 ''out_a.cnv'' True, Output_call 1 ''out_a.cnv'']"
  let ?e = "Exception ''no output directory''"
  have g: "get_batch_config_str ?b ''raw*.hex'' = (?b, ?calls, Inl ?e)"
    by (simp add: get_batch_config_str_def init_def stageA_def stageB_def stageC_def
        path_name_def path_parts_def)
  obtain w' where c: "call (os_exit 0) ?b ''raw*.hex'' world0 = (?b, w', ?calls, Inl ?e)"
    using g by (simp add: call_def call_body_def exit_temporary_file_def os_exit_def)
  have m: "Output_call 1 ''out_a.cnv'' \<in> set ?calls" by simp
  have a: "answer (items (stages ?b) ! stage_of (Output_call 1 ''out_a.cnv''))
      (Output_call 1 ''out_a.cnv'') = Inl ?e"
    by (simp add: init_def stageC_def)
  from stage_error_propagates[OF m a, of "''raw*.hex''" ?b "Inl ?e" "os_exit 0" world0 w' "Inl ?e"]
    g c a
  show ?thesis by (simp add: init_def world0_def)
qed

text \<open>
  C7. For the two stages of the example, stageA writing to \<^verbatim>\<open>dir/out_a.cnv\<close> and stageB
  to \<^verbatim>\<open>out_b.cnv\<close>, rendering the input pattern \<^verbatim>\<open>raw*.hex\<close> returns the header, then
  \<^verbatim>\<open>stageA -i raw*.hex\<close>, then \<^verbatim>\<open>stageB -i out_a.cnv\<close>, on three lines.
\<close>

theorem get_batch_config_str_two_stages:
  "snd (snd (get_batch_config_str (init (Sequence [stageA, stageB])) ''raw*.hex'')) =
     Inr (''@ Generated by the seabird-processing Python package'' @ [CHR 0x0A] @
          ''stageA -i raw*.hex'' @ [CHR 0x0A] @
          ''stageB -i out_a.cnv'')"
  by (simp add: get_batch_config_str_def init_def stageA_def stageB_def path_name_def
      path_parts_def config_header_comment_def newline_def)

text \<open>
  C8. With no stage, the rendering returns the header comment alone and calls nothing; and
  a run whose temporary file can be created and written runs \<^verbatim>\<open>sbebatch\<close> once, on
  that file, which then holds the header comment and nothing else.
\<close>

theorem empty_pipeline:
  assumes "items (stages self) = []"
  shows "get_batch_config_str self inp =
           (self, [], Inr ''@ Generated by the seabird-processing Python package'') \<and>
    (\<forall>name. named_temporary_file env (files w) = Inr name \<and>
       write_raises env = None \<and> flush_raises env = None \<longrightarrow>
       run_calls (fst (snd (call env self inp w))) =
         run_calls w @
           [([''sbebatch'', name],
             (files w)(name \<mapsto> ''@ Generated by the seabird-processing Python package''))])"
proof -
  from assms have c: "consumed (stages self) [] = stages self"
    by (cases "stages self") simp_all
  with assms have g: "get_batch_config_str self inp =
           (self, [], Inr ''@ Generated by the seabird-processing Python package'')"
    by (simp add: get_batch_config_str_def config_header_comment_def)
  then show ?thesis
    by (auto simp: call_def call_body_def exit_temporary_file_def Let_def
        split: prod.splits sum.splits option.splits)
qed

theorem empty_pipeline_witness:
  "items (stages (init (Iterator []))) = [] \<and>
   get_batch_config_str (init (Iterator [])) ''raw*.hex'' =
     (init (Iterator []), [], Inr ''@ Generated by the seabird-processing Python package'') \<and>
   map fst (run_calls (fst (snd (call (os_exit 0) (init (Iterator [])) ''raw*.hex'' world0)))) =
     [[''sbebatch'', ''/tmp/tmpcfg.txt'']] \<and>
   map (\<lambda>(cmd, fs). fs ''/tmp/tmpcfg.txt'')
     (run_calls (fst (snd (call (os_exit 0) (init (Iterator [])) ''raw*.hex'' world0)))) =
     [Some ''@ Generated by the seabird-processing Python package'']"
proof -
  have i: "items (stages (init (Iterator []))) = []" by (simp add: init_def)
  have n: "named_temporary_file (os_exit 0) (files world0) = Inr ''/tmp/tmpcfg.txt'' \<and>
       write_raises (os_exit 0) = None \<and> flush_raises (os_exit 0) = None"
    by (simp add: os_exit_def)
  from empty_pipeline[OF i, of "''raw*.hex''" "os_exit 0" world0] n have
    "get_batch_config_str (init (Iterator [])) ''raw*.hex'' =
       (init (Iterator []), [], Inr ''@ Generated by the seabird-processing Python package'')"
    "run_calls (fst (snd (call (os_exit 0) (init (Iterator [])) ''raw*.hex'' world0))) =
       run_calls world0 @
         [([''sbebatch'', ''/tmp/tmpcfg.txt''],
           (files world0)(''/tmp/tmpcfg.txt'' \<mapsto> ''@ Generated by the seabird-processing Python package''))]"
    by blast+
  with i show ?thesis by (simp add: world0_def)
qed

text \<open>
  C9, as stated, fails: an iterator stored as the stages is read by a rendering or a run,
  and what it has handed out is gone afterwards.
\<close>

theorem iterator_is_consumed:
  "length (items (stages (init (Iterator [stageA, stageB])))) = 2 \<and>
   length (items (stages (fst (get_batch_config_str (init (Iterator [stageA, stageB])) ''raw*.hex'')))) = 0 \<and>
   length (items (stages (fst (call (os_exit 0) (init (Iterator [stageA, stageB])) ''raw*.hex'' world0)))) = 0 \<and>
   stages (fst (get_batch_config_str (init (Iterator [stageA, stageB])) ''raw*.hex'')) \<noteq>
     stages (init (Iterator [stageA, stageB]))"
  by (simp add: get_batch_config_str_def call_def call_body_def exit_temporary_file_def
      os_exit_def world0_def init_def stageA_def stageB_def path_name_def path_parts_def Let_def)

text \<open>
  C9, amended. When the stored stages are a sequence that can be read again (a list, a
  tuple), a rendering and a run leave the pipeline as it was, its stages and their order
  included, and a rendering after either gives what a rendering before it would have given.
\<close>

theorem sequence_left_unchanged:
  assumes "stages self = Sequence xs"
  shows "fst (get_batch_config_str self inp) = self \<and>
         fst (call env self inp w) = self \<and>
         get_batch_config_str (fst (get_batch_config_str self inp)) inp =
           get_batch_config_str self inp \<and>
         get_batch_config_str (fst (call env self inp w)) inp = get_batch_config_str self inp"
proof -
  have a: "fst (get_batch_config_str self inp) = self"
    by (rule get_batch_config_str_Sequence[OF assms])
  have b: "fst (call env self inp w) = self"
    using a by (simp add: call_self split: sum.splits)
  from a b show ?thesis by simp
qed

theorem sequence_left_unchanged_witness:
  "stages (init (Sequence [stageA, stageB])) = Sequence [stageA, stageB] \<and>
   fst (call (os_exit 0) (init (Sequence [stageA, stageB])) ''raw*.hex'' world0) =
     init (Sequence [stageA, stageB]) \<and>
   get_batch_config_str
     (fst (call (os_exit 0) (init (Sequence [stageA, stageB])) ''raw*.hex'' world0)) ''raw*.hex'' =
     get_batch_config_str (init (Sequence [stageA, stageB])) ''raw*.hex''"
proof -
  have s: "stages (init (Sequence [stageA, stageB])) = Sequence [stageA, stageB]"
    by (simp add: init_def)
  from sequence_left_unchanged[OF s, of "''raw*.hex''" "os_exit 0" world0] s
  show ?thesis by simp
qed

text \<open>
  C10. Whenever a stage has returned its command, its output path is asked for next, the
  last stage's as well, although the name threaded on from the last stage is used by
  nothing; a rendering that returns a text has asked every stage for its output path; and
  when the last stage's output path raises, the rendering raises that exception, the
  command of the last stage having been produced. The pipeline of stageA and stageC is
  one that does so.
\<close>

theorem final_output_path_is_called:
  assumes "get_batch_config_str self inp = (self', calls, r)"
  shows "(\<forall>k y s. Exec_call k y True \<in> set calls \<and>
             get_exec_str (items (stages self) ! k) y True = Inr s \<longrightarrow>
             Output_call k y \<in> set calls) \<and>
    (\<forall>rendered. r = Inr rendered \<longrightarrow>
       (\<forall>k<length (items (stages self)). \<exists>y. Output_call k y \<in> set calls)) \<and>
    (\<forall>y e. Output_call (length (items (stages self)) - 1) y \<in> set calls \<and>
           output_file_path (last (items (stages self))) y = Inl e \<longrightarrow>
           r = Inl e \<and> (\<exists>s. get_exec_str (last (items (stages self))) y True = Inr s))"
proof -
  from assms obtain rest r' where
    rl: "render_loop (items (stages self)) 0 inp [config_header_comment] = (rest, calls, r')" and
    r: "r = (case r' of Inl e \<Rightarrow> Inl e | Inr ls \<Rightarrow> Inr (str_join newline ls))"
    by (rule get_batch_config_str_cases)
  have a: "\<forall>k y s. Exec_call k y True \<in> set calls \<and>
             get_exec_str (items (stages self) ! k) y True = Inr s \<longrightarrow>
             Output_call k y \<in> set calls"
  proof (intro allI impI)
    fix k y s
    assume "Exec_call k y True \<in> set calls \<and>
             get_exec_str (items (stages self) ! k) y True = Inr s"
    then show "Output_call k y \<in> set calls"
      using render_loop_output_follows[OF rl, of k y True s] by simp
  qed
  have b: "\<forall>rendered. r = Inr rendered \<longrightarrow>
       (\<forall>k<length (items (stages self)). \<exists>y. Output_call k y \<in> set calls)"
  proof (intro allI impI)
    fix rendered k assume "r = Inr rendered" "k < length (items (stages self))"
    from \<open>r = Inr rendered\<close> r obtain ls where "r' = Inr ls" by (cases r') auto
    with rl have "render_loop (items (stages self)) 0 inp [config_header_comment] = (rest, calls, Inr ls)"
      by simp
    from render_loop_outputs[OF this \<open>k < length (items (stages self))\<close>]
    show "\<exists>y. Output_call k y \<in> set calls" by simp
  qed
  have c: "\<forall>y e. Output_call (length (items (stages self)) - 1) y \<in> set calls \<and>
           output_file_path (last (items (stages self))) y = Inl e \<longrightarrow>
           r = Inl e \<and> (\<exists>s. get_exec_str (last (items (stages self))) y True = Inr s)"
  proof (intro allI impI)
    fix y e
    let ?n = "length (items (stages self))"
    assume h: "Output_call (?n - 1) y \<in> set calls \<and>
           output_file_path (last (items (stages self))) y = Inl e"
    from render_loop_stage_of[OF rl, of "Output_call (?n - 1) y"] h
    have ne: "items (stages self) \<noteq> []" by auto
    then have l: "last (items (stages self)) = items (stages self) ! (?n - 1)"
      by (simp add: last_conv_nth)
    with h have "answer (items (stages self) ! (stage_of (Output_call (?n - 1) y) - 0))
        (Output_call (?n - 1) y) = Inl e" by simp
    from render_loop_raise[OF rl _ this] h r have "r = Inl e" by simp
    moreover from render_loop_exec_precedes[OF rl, of "?n - 1" y] h l
    have "\<exists>s. get_exec_str (last (items (stages self))) y True = Inr s" by simp
    ultimately show "r = Inl e \<and> (\<exists>s. get_exec_str (last (items (stages self))) y True = Inr s)"
      by simp
  qed
  from a b c show ?thesis by blast
qed

theorem final_output_path_is_called_witness:
  "get_batch_config_str (init (Sequence [stageA, stageC])) ''raw*.hex'' =
     (init (Sequence [stageA, stageC]),
      [Exec_call 0 ''raw*.hex'' True, Output_call 0 ''raw*.hex'',
       Exec_call 1 ''out_a.cnv'' True, Output_call 1 ''out_a.cnv''],
      Inl (Exception ''no output directory'')) \<and>
   output_file_path (last [stageA, stageC]) ''out_a.cnv'' = Inl (Exception ''no output directory'') \<and>
   (\<exists>s. get_exec_str (last [stageA, stageC]) ''out_a.cnv'' True = Inr s)"
proof -
  let ?b = "init (Sequence [stageA, stageC])"
  let ?calls = "[Exec_call 0 ''raw*.hex'' True, Output_call 0 ''raw*.hex'',
                 Exec_call 1 ''out_a.cnv'' True, Output_call 1 ''out_a.cnv'']"
  let ?e = "Exception ''no output directory''"
  have g: "get_batch_config_str ?b ''raw*.hex'' = (?b, ?calls, Inl ?e)"
    by (simp add: get_batch_config_str_def init_def stageA_def stageC_def
        path_name_def path_parts_def)
  have o: "output_file_path (last [stageA, stageC]) ''out_a.cnv'' = Inl ?e"
    by (simp add: stageC_def)
  from final_output_path_is_called[OF g] have
    "\<forall>y e. Output_call (length (items (stages ?b)) - 1) y \<in> set ?calls \<and>
           output_file_path (last (items (stages ?b))) y = Inl e \<longrightarrow>
           Inl ?e = (Inl e :: exn + string) \<and>
           (\<exists>s. get_exec_str (last (items (stages ?b))) y True = Inr s)"
    by blast
  then have "Output_call (length (items (stages ?b)) - 1) ''out_a.cnv'' \<in> set ?calls \<and>
           output_file_path (last (items (stages ?b))) ''out_a.cnv'' = Inl ?e \<longrightarrow>
           (\<exists>s. get_exec_str (last (items (stages ?b))) ''out_a.cnv'' True = Inr s)"
    by blast
  with o have "\<exists>s. get_exec_str (last [stageA, stageC]) ''out_a.cnv'' True = Inr s"
    by (simp add: init_def)
  with g o show ?thesis by simp
qed

end
